theory Spec2Isabelle
  imports Main "HOL-Library.Multiset"
begin

section \<open>Data model of the dependency graph\<close>

text \<open>
  A \<open>reflect.Type\<close> is used by the container only for its identity; it is modelled
  as a natural number.  A \<open>fmt.Stringer\<close> is modelled by the string it yields, an absent
  one (\<open>nil\<close>) by \<open>None\<close>.
\<close>

record graphNodeKey =
  key_typ :: nat
  name :: string
  group :: bool

record Spec =
  Type :: nat
  Name :: string
  Group :: bool
  Decorate :: bool

definition extractGraphKey :: "Spec \<Rightarrow> graphNodeKey" where
  "extractGraphKey spec = \<lparr>key_typ = Type spec, name = Name spec, group = Group spec\<rparr>"

record graphNodeOutputSlot =
  slot_id :: nat
  slot_index :: nat

record 'a graphNode =
  node_input :: "Spec list"
  node_output :: "Spec list"
  node_value :: 'a
  node_format :: "string option"

text \<open>Decimal rendering of the node index, as \<open>fmt.Sprintf("#%d", id)\<close> prints it.\<close>

definition digit_char :: "nat \<Rightarrow> char" where
  "digit_char d = char_of (48 + d)"

fun decimal :: "nat \<Rightarrow> string" where
  "decimal n = (if n < 10 then [digit_char n] else decimal (n div 10) @ [digit_char (n mod 10)])"

declare decimal.simps [simp del]

definition graphNode_String :: "'a graphNode \<Rightarrow> nat \<Rightarrow> string" where
  "graphNode_String n i =
     (case node_format n of Some s \<Rightarrow> s | None \<Rightarrow> ''#'' @ decimal i)"

text \<open>
  The two indices of the graph are Go maps from keys to slices; reading a key that was
  never written yields the empty slice, so they are total functions into lists.
\<close>

record 'a graph =
  nodes :: "'a graphNode list"
  provide :: "graphNodeKey \<Rightarrow> graphNodeOutputSlot list"
  decorate :: "graphNodeKey \<Rightarrow> graphNodeOutputSlot list"

definition newGraph :: "'a graph" where
  "newGraph = \<lparr>nodes = [], provide = (\<lambda>_. []), decorate = (\<lambda>_. [])\<rparr>"

text \<open>The loop of \<open>graph.insert\<close> over the outputs of the node, from position \<open>i\<close> on.\<close>

fun insert_outputs :: "'a graph \<Rightarrow> nat \<Rightarrow> nat \<Rightarrow> Spec list \<Rightarrow> 'a graph" where
  "insert_outputs g n i [] = g"
| "insert_outputs g n i (item # rest) =
     (let key = extractGraphKey item;
          slot = \<lparr>slot_id = n, slot_index = i\<rparr>;
          g' = (if Decorate item
                then g\<lparr>decorate := (decorate g)(key := decorate g key @ [slot])\<rparr>
                else g\<lparr>provide := (provide g)(key := provide g key @ [slot])\<rparr>)
      in insert_outputs g' n (Suc i) rest)"

definition insert_node :: "'a graph \<Rightarrow> 'a graphNode \<Rightarrow> 'a graph" where
  "insert_node g node =
     insert_outputs (g\<lparr>nodes := nodes g @ [node]\<rparr>) (length (nodes g)) 0 (node_output node)"

section \<open>Execution plan\<close>

text \<open>
  Values handled at run time.  \<open>Zero\<close> is the zero \<open>reflect.Value\<close> that \<open>make\<close>
  leaves in a fresh buffer, \<open>Slice\<close> a slice value, \<open>Obj\<close> any other value.
\<close>

datatype val = Zero | Obj nat | Slice "val list"

text \<open>
  An \<open>*executionParam\<close> is a pointer to a buffer of values.  Buffers are allocated by
  the planner and shared between the steps of the plan, so a pointer is modelled by the
  position of its buffer in a heap (a list of buffers) that grows with every
  allocation.  The \<open>nil\<close> pointer of a zero \<open>executionCollect\<close> is \<open>None\<close>.
\<close>

record executionCollect =
  cresult :: "nat option"
  cindex :: nat

datatype 'a executionNode =
    graphUserNode nat nat 'a
  | collectParamNode "executionCollect list" nat
  | collectGroupNode "executionCollect list" nat

datatype error =
    MissingDependency graphNodeKey
  | AmbiguousDependency graphNodeKey
  | CyclicDependency string graphNodeKey
  | ErrDependency string error
  | ErrExecute string error
  | HostError string
  | Panic string

record 'a graphToposort =
  outputs :: "nat \<rightharpoonup> nat"
  grouped :: "graphNodeKey \<rightharpoonup> nat"
  decorated :: "graphNodeKey \<rightharpoonup> executionCollect"
  decorating :: "graphNodeKey \<rightharpoonup> executionCollect"
  pending :: "nat set"
  result :: "'a executionNode list"
  heap :: "val list list"

definition newGraphToposort :: "'a graphToposort" where
  "newGraphToposort =
     \<lparr>outputs = Map.empty, grouped = Map.empty, decorated = Map.empty,
      decorating = Map.empty, pending = {}, result = [], heap = []\<rparr>"

text \<open>\<open>&executionParam{params: vs}\<close>: a new buffer, and the pointer to it.\<close>

definition alloc :: "val list \<Rightarrow> 'a graphToposort \<Rightarrow> nat \<times> 'a graphToposort" where
  "alloc vs tp = (length (heap tp), tp\<lparr>heap := heap tp @ [vs]\<rparr>)"

section \<open>The planner\<close>

text \<open>
  Every planner function returns the state it leaves behind together with either an
  error or its result; \<open>None\<close> stands for a call that does not return.  The functions
  of the source are mutually recursive through \<open>toposortGenerateGraphNodeID\<close>.  That
  function is defined last, by recursion on a bound on the depth of nested calls; the
  others take the scheduler they call back as the parameter \<open>sched\<close>.
\<close>

type_synonym ('a, 'r) planned = "((error + 'r) \<times> 'a graphToposort) option"

type_synonym 'a scheduler = "'a graphToposort \<Rightarrow> nat \<Rightarrow> ('a, nat) planned"

definition toposortGenerateSingle ::
  "'a scheduler \<Rightarrow> 'a graph \<Rightarrow> 'a graphToposort \<Rightarrow> graphNodeKey
     \<Rightarrow> ('a, executionCollect) planned" where
  "toposortGenerateSingle sched g tp item =
     (let outputSlots = provide g item in
      if length outputSlots = 0 then Some (Inl (MissingDependency item), tp)
      else if length outputSlots \<noteq> 1 then Some (Inl (AmbiguousDependency item), tp)
      else
        let outputSlot = outputSlots ! 0; i = slot_id outputSlot in
        if i \<in> pending tp then
          (if i < length (nodes g)
           then Some (Inl (CyclicDependency (graphNode_String (nodes g ! i) i) item), tp)
           else Some (Inl (Panic ''index out of range''), tp))
        else
          (case sched tp i of
             None \<Rightarrow> None
           | Some (Inl err, tp') \<Rightarrow> Some (Inl err, tp')
           | Some (Inr params, tp') \<Rightarrow>
               Some (Inr \<lparr>cresult = Some params, cindex = slot_index outputSlot\<rparr>, tp')))"

text \<open>The loop of \<open>toposortGenerateGrouped\<close> over the providers of the group.\<close>

fun grouped_loop ::
  "'a scheduler \<Rightarrow> 'a graphToposort \<Rightarrow> graphNodeOutputSlot list \<Rightarrow> executionCollect list
     \<Rightarrow> ('a, executionCollect list) planned" where
  "grouped_loop sched tp [] items = Some (Inr items, tp)"
| "grouped_loop sched tp (outputSlot # rest) items =
     (case sched tp (slot_id outputSlot) of
        None \<Rightarrow> None
      | Some (Inl err, tp') \<Rightarrow> Some (Inl err, tp')
      | Some (Inr params, tp') \<Rightarrow>
          grouped_loop sched tp' rest
            (items @ [\<lparr>cresult = Some params, cindex = slot_index outputSlot\<rparr>]))"

definition toposortGenerateGrouped ::
  "'a scheduler \<Rightarrow> 'a graph \<Rightarrow> 'a graphToposort \<Rightarrow> graphNodeKey
     \<Rightarrow> ('a, executionCollect) planned" where
  "toposortGenerateGrouped sched g tp grp =
     (case grouped tp grp of
        Some r \<Rightarrow> Some (Inr \<lparr>cresult = Some r, cindex = 0\<rparr>, tp)
      | None \<Rightarrow>
          (case alloc [Slice []] tp of (r, tp1) \<Rightarrow>
            (case grouped_loop sched tp1 (provide g grp) [] of
               None \<Rightarrow> None
             | Some (Inl err, tp2) \<Rightarrow> Some (Inl err, tp2)
             | Some (Inr items, tp2) \<Rightarrow>
                 Some (Inr \<lparr>cresult = Some r, cindex = 0\<rparr>,
                       tp2\<lparr>result := result tp2 @ [collectGroupNode items r],
                           grouped := (grouped tp2)(grp \<mapsto> r)\<rparr>))))"

definition toposortGenerateBaseCollect ::
  "'a scheduler \<Rightarrow> 'a graph \<Rightarrow> 'a graphToposort \<Rightarrow> graphNodeKey
     \<Rightarrow> ('a, executionCollect) planned" where
  "toposortGenerateBaseCollect sched g tp key =
     (case (if group key then toposortGenerateGrouped sched g tp key
            else toposortGenerateSingle sched g tp key) of
        None \<Rightarrow> None
      | Some (Inl err, tp') \<Rightarrow> Some (Inl err, tp')
      | Some (Inr baseCollect, tp') \<Rightarrow>
          if length (decorate g key) = 0 then Some (Inr baseCollect, tp')
          else if decorated tp' key \<noteq> None then Some (Inr baseCollect, tp')
          else if decorating tp' key = None
            then Some (Inr baseCollect,
                       tp'\<lparr>decorating := (decorating tp')(key \<mapsto> baseCollect)\<rparr>)
            else Some (Inr baseCollect, tp'))"

text \<open>The loop of \<open>toposortGenerateCollect\<close> over the decorators of the key.\<close>

fun decorate_loop ::
  "'a scheduler \<Rightarrow> 'a graphToposort \<Rightarrow> graphNodeKey \<Rightarrow> graphNodeOutputSlot list
     \<Rightarrow> ('a, unit) planned" where
  "decorate_loop sched tp key [] = Some (Inr (), tp)"
| "decorate_loop sched tp key (outputSlot # rest) =
     (case sched tp (slot_id outputSlot) of
        None \<Rightarrow> None
      | Some (Inl err, tp') \<Rightarrow> Some (Inl err, tp')
      | Some (Inr params, tp') \<Rightarrow>
          decorate_loop sched
            (tp'\<lparr>decorating := (decorating tp')
                   (key \<mapsto> \<lparr>cresult = Some params, cindex = slot_index outputSlot\<rparr>)\<rparr>)
            key rest)"

text \<open>
  A Go panic is not an \<open>error\<close> value, so the test \<open>err != nil\<close> does not see it: the
  branch that returns the zero collect with a \<open>nil\<close> error is taken for errors only.
\<close>

definition toposortGenerateCollect ::
  "'a scheduler \<Rightarrow> 'a graph \<Rightarrow> 'a graphToposort \<Rightarrow> Spec
     \<Rightarrow> ('a, executionCollect) planned" where
  "toposortGenerateCollect sched g tp spec =
     (let key = extractGraphKey spec in
      case toposortGenerateBaseCollect sched g tp key of
        None \<Rightarrow> None
      | Some (Inl err, tp') \<Rightarrow>
          (case err of
             Panic m \<Rightarrow> Some (Inl err, tp')
           | _ \<Rightarrow> Some (Inr \<lparr>cresult = None, cindex = 0\<rparr>, tp'))
      | Some (Inr baseCollect, tp') \<Rightarrow>
          if Decorate spec then
            (case decorating tp' key of
               None \<Rightarrow> Some (Inl (Panic ''invalid uninitialized decorate''), tp')
             | Some c \<Rightarrow> Some (Inr c, tp'))
          else if length (decorate g key) = 0 then Some (Inr baseCollect, tp')
          else
            (case decorated tp' key of
               Some d \<Rightarrow> Some (Inr d, tp')
             | None \<Rightarrow>
                 (case decorate_loop sched tp' key (decorate g key) of
                    None \<Rightarrow> None
                  | Some (Inl err, tp2) \<Rightarrow> Some (Inl err, tp2)
                  | Some (Inr u, tp2) \<Rightarrow>
                      (let res = (case decorating tp2 key of
                                    None \<Rightarrow> \<lparr>cresult = None, cindex = 0\<rparr>
                                  | Some c \<Rightarrow> c)
                       in Some (Inr res,
                                tp2\<lparr>decorated := (decorated tp2)(key \<mapsto> res),
                                    decorating := (decorating tp2)(key := None)\<rparr>)))))"

text \<open>The two loops of \<open>toposortGenerateGraphNode\<close> over the inputs of the node.\<close>

fun base_pass ::
  "'a scheduler \<Rightarrow> 'a graph \<Rightarrow> 'a graphToposort \<Rightarrow> Spec list \<Rightarrow> ('a, unit) planned" where
  "base_pass sched g tp [] = Some (Inr (), tp)"
| "base_pass sched g tp (inp # rest) =
     (case toposortGenerateBaseCollect sched g tp (extractGraphKey inp) of
        None \<Rightarrow> None
      | Some (Inl err, tp') \<Rightarrow> Some (Inl err, tp')
      | Some (Inr c, tp') \<Rightarrow> base_pass sched g tp' rest)"

fun collect_pass ::
  "'a scheduler \<Rightarrow> 'a graph \<Rightarrow> 'a graphToposort \<Rightarrow> Spec list \<Rightarrow> executionCollect list
     \<Rightarrow> ('a, executionCollect list) planned" where
  "collect_pass sched g tp [] items = Some (Inr items, tp)"
| "collect_pass sched g tp (inp # rest) items =
     (case toposortGenerateCollect sched g tp inp of
        None \<Rightarrow> None
      | Some (Inl err, tp') \<Rightarrow> Some (Inl err, tp')
      | Some (Inr c, tp') \<Rightarrow> collect_pass sched g tp' rest (items @ [c]))"

definition toposortGenerateGraphNode ::
  "'a scheduler \<Rightarrow> 'a graph \<Rightarrow> 'a graphToposort \<Rightarrow> 'a graphNode \<Rightarrow> ('a, nat) planned" where
  "toposortGenerateGraphNode sched g tp current =
     (case alloc (replicate (length (node_input current)) Zero) tp of (cp, tp0) \<Rightarrow>
       (case base_pass sched g tp0 (node_input current) of
          None \<Rightarrow> None
        | Some (Inl err, tp1) \<Rightarrow> Some (Inl err, tp1)
        | Some (Inr u, tp1) \<Rightarrow>
            (case collect_pass sched g tp1 (node_input current) [] of
               None \<Rightarrow> None
             | Some (Inl err, tp2) \<Rightarrow> Some (Inl err, tp2)
             | Some (Inr items, tp2) \<Rightarrow>
                 (case alloc (replicate (length (node_output current)) Zero)
                         (tp2\<lparr>result := result tp2 @ [collectParamNode items cp]\<rparr>) of
                    (ur, tp3) \<Rightarrow>
                      Some (Inr ur,
                            tp3\<lparr>result := result tp3
                                   @ [graphUserNode cp ur (node_value current)]\<rparr>)))))"

text \<open>
  \<open>toposortGenerateGraphNodeID\<close>, with the bound \<open>n\<close> on the depth of the calls nested
  in it.  The deferred \<open>delete(tp.pending, id)\<close> runs on every return.  Reading
  \<open>g.nodes[id]\<close> out of range panics.
\<close>

primrec toposortGenerateGraphNodeID ::
  "nat \<Rightarrow> 'a graph \<Rightarrow> 'a graphToposort \<Rightarrow> nat \<Rightarrow> ('a, nat) planned" where
  "toposortGenerateGraphNodeID 0 g tp i =
     (case outputs tp i of
        Some params \<Rightarrow> Some (Inr params, tp)
      | None \<Rightarrow> None)"
| "toposortGenerateGraphNodeID (Suc n) g tp i =
     (case outputs tp i of
        Some params \<Rightarrow> Some (Inr params, tp)
      | None \<Rightarrow>
          (let tp1 = tp\<lparr>pending := insert i (pending tp)\<rparr> in
           if i < length (nodes g) then
             (case toposortGenerateGraphNode (toposortGenerateGraphNodeID n g) g tp1
                     (nodes g ! i) of
                None \<Rightarrow> None
              | Some (Inl err, tp2) \<Rightarrow> Some (Inl err, tp2\<lparr>pending := pending tp2 - {i}\<rparr>)
              | Some (Inr params, tp2) \<Rightarrow>
                  Some (Inr params,
                        tp2\<lparr>outputs := (outputs tp2)(i \<mapsto> params),
                            pending := pending tp2 - {i}\<rparr>))
           else Some (Inl (Panic ''index out of range''),
                      tp1\<lparr>pending := pending tp1 - {i}\<rparr>)))"

text \<open>
  \<open>graph.toposort\<close>.  The plan is returned with the heap holding the buffers its steps
  point to.
\<close>

fun toposort_loop ::
  "nat \<Rightarrow> 'a graph \<Rightarrow> 'a graphToposort \<Rightarrow> 'a graphNode list
     \<Rightarrow> (error + 'a executionNode list \<times> val list list) option" where
  "toposort_loop n g tp [] = Some (Inr (result tp, heap tp))"
| "toposort_loop n g tp (invoke # rest) =
     (case toposortGenerateGraphNode (toposortGenerateGraphNodeID n g) g tp invoke of
        None \<Rightarrow> None
      | Some (Inl err, tp') \<Rightarrow> Some (Inl err)
      | Some (Inr params, tp') \<Rightarrow> toposort_loop n g tp' rest)"

definition toposort ::
  "nat \<Rightarrow> 'a graph \<Rightarrow> 'a graphNode list
     \<Rightarrow> (error + 'a executionNode list \<times> val list list) option" where
  "toposort n g invokes = toposort_loop n g newGraphToposort invokes"

section \<open>Running a plan\<close>

text \<open>
  Reading a slot of a buffer, \<open>executionCollect.collect\<close>.  Dereferencing the \<open>nil\<close>
  pointer and indexing out of range panic.  A panic ends the run; the state it leaves
  behind is not modelled.
\<close>

definition collect :: "val list list \<Rightarrow> executionCollect \<Rightarrow> error + val" where
  "collect st c =
     (case cresult c of
        None \<Rightarrow> Inl (Panic ''nil pointer dereference'')
      | Some b \<Rightarrow>
          if b < length st then
            (if cindex c < length (st ! b) then Inr (st ! b ! cindex c)
             else Inl (Panic ''index out of range''))
          else Inl (Panic ''nil pointer dereference''))"

text \<open>\<open>collectParamNode.execute\<close>: the loop over the items, from position \<open>i\<close> on.\<close>

fun collectParam_loop ::
  "val list list \<Rightarrow> nat \<Rightarrow> nat \<Rightarrow> executionCollect list \<Rightarrow> error + val list list" where
  "collectParam_loop st r i [] = Inr st"
| "collectParam_loop st r i (item # rest) =
     (case collect st item of
        Inl e \<Rightarrow> Inl e
      | Inr v \<Rightarrow>
          if r < length st \<and> i < length (st ! r)
          then collectParam_loop (st[r := (st ! r)[i := v]]) r (Suc i) rest
          else Inl (Panic ''index out of range''))"

text \<open>\<open>reflect.AppendSlice\<close> panics unless both of its arguments are slices.\<close>

definition AppendSlice :: "val \<Rightarrow> val \<Rightarrow> error + val" where
  "AppendSlice s t =
     (case s of
        Slice xs \<Rightarrow>
          (case t of
             Slice ys \<Rightarrow> Inr (Slice (xs @ ys))
           | _ \<Rightarrow> Inl (Panic ''reflect: call of reflect.AppendSlice on non-slice''))
      | _ \<Rightarrow> Inl (Panic ''reflect: call of reflect.AppendSlice on non-slice''))"

text \<open>\<open>collectGroupNode.execute\<close>: the loop over the items.\<close>

fun collectGroup_loop ::
  "val list list \<Rightarrow> nat \<Rightarrow> executionCollect list \<Rightarrow> error + val list list" where
  "collectGroup_loop st r [] = Inr st"
| "collectGroup_loop st r (item # rest) =
     (if r < length st \<and> 0 < length (st ! r) then
        (case collect st item of
           Inl e \<Rightarrow> Inl e
         | Inr v \<Rightarrow>
             (case AppendSlice (st ! r ! 0) v of
                Inl e \<Rightarrow> Inl e
              | Inr s \<Rightarrow> collectGroup_loop (st[r := (st ! r)[0 := s]]) r rest))
      else Inl (Panic ''index out of range''))"

fun execute :: "'a executionNode \<Rightarrow> val list list \<Rightarrow> error + val list list" where
  "execute (graphUserNode p r v) st = Inl (Panic ''graphUserNode.execute must not be invoked'')"
| "execute (collectParamNode items r) st = collectParam_loop st r 0 items"
| "execute (collectGroupNode items r) st = collectGroup_loop st r items"

text \<open>
  The functions of the host are outside the container.  They are modelled by what the
  runner can observe of them: the events they log, in order, and what they return.
  A stack function is split at the call of its continuation: \<open>enter\<close> is the part
  before the call, returning either an error (the continuation is not called) or the
  values passed to it; \<open>leave\<close> is the part after the call, given the error the
  continuation returned.  \<open>PopulateExec\<close> holds the addresses of the host's variables.
\<close>

datatype exec =
    ProvideExec "val list \<Rightarrow> string list \<times> (error + val list)"
  | SupplyExec "val list"
  | StackExec "val list \<Rightarrow> string list \<times> (error + val list)"
              "val list \<Rightarrow> error option \<Rightarrow> string list \<times> error option"
  | InvokeExec "val list \<Rightarrow> string list \<times> error option"
  | PopulateExec "nat list"

record runAction =
  action_format :: "string option"
  action_exec :: exec

record runState =
  run_pending :: "runAction executionNode list"
  store :: "val list list"
  events :: "string list"
  cells :: "nat \<Rightarrow> val"

text \<open>\<open>copy(out, output)\<close> copies as many values as fit.\<close>

definition copy_vals :: "val list \<Rightarrow> val list \<Rightarrow> val list" where
  "copy_vals out src = take (length out) src @ drop (length src) out"

text \<open>The loop of the action of \<open>Populate\<close>, writing through the pointers.\<close>

fun populate_loop :: "nat list \<Rightarrow> val list \<Rightarrow> (nat \<Rightarrow> val) \<Rightarrow> error + (nat \<Rightarrow> val)" where
  "populate_loop ptrs [] c = Inr c"
| "populate_loop [] (v # vs) c = Inl (Panic ''index out of range'')"
| "populate_loop (p # ptrs) (v # vs) c = populate_loop ptrs vs (c(p := v))"

type_synonym ran = "(error option \<times> runState) option"

text \<open>A panic is modelled as a value of type \<open>error\<close>, told apart by \<open>is_panic\<close>.\<close>

fun is_panic :: "error \<Rightarrow> bool" where
  "is_panic (Panic m) = True"
| "is_panic e = False"

fun panicked :: "error option \<Rightarrow> bool" where
  "panicked (Some e) = is_panic e"
| "panicked None = False"

text \<open>
  The closures built by \<open>Provide\<close>, \<open>Supply\<close>, \<open>Stack\<close>, \<open>Invoke\<close> and
  \<open>Populate\<close>, applied to the runner state, the input buffer \<open>p\<close> and the output
  buffer \<open>r\<close>.  The parameter \<open>k\<close> is \<open>rs.run\<close>, called by the continuation of a stack
  function.  A panic raised below the continuation unwinds through the stack function.
\<close>

definition exec_action :: "(runState \<Rightarrow> ran) \<Rightarrow> exec \<Rightarrow> runState \<Rightarrow> nat \<Rightarrow> nat \<Rightarrow> ran" where
  "exec_action k a rs p r =
     (case a of
        ProvideExec f \<Rightarrow>
          (case f (store rs ! p) of
             (evs, Inl err) \<Rightarrow> Some (Some err, rs\<lparr>events := events rs @ evs\<rparr>)
           | (evs, Inr out) \<Rightarrow>
               Some (None, rs\<lparr>events := events rs @ evs,
                              store := (store rs)[r := copy_vals (store rs ! r) out]\<rparr>))
      | SupplyExec values \<Rightarrow>
          Some (None, rs\<lparr>store := (store rs)[r := copy_vals (store rs ! r) values]\<rparr>)
      | StackExec enter leave \<Rightarrow>
          (case enter (store rs ! p) of
             (evs, Inl err) \<Rightarrow> Some (Some err, rs\<lparr>events := events rs @ evs\<rparr>)
           | (evs, Inr out) \<Rightarrow>
               (case k (rs\<lparr>events := events rs @ evs,
                           store := (store rs)[r := copy_vals (store rs ! r) out]\<rparr>) of
                  None \<Rightarrow> None
                | Some (res, rs') \<Rightarrow>
                    if panicked res then Some (res, rs')
                    else
                      (case leave (store rs ! p) res of
                         (evs', final) \<Rightarrow> Some (final, rs'\<lparr>events := events rs' @ evs'\<rparr>))))
      | InvokeExec f \<Rightarrow>
          (case f (store rs ! p) of
             (evs, res) \<Rightarrow> Some (res, rs\<lparr>events := events rs @ evs\<rparr>))
      | PopulateExec ptrs \<Rightarrow>
          (case populate_loop ptrs (store rs ! p) (cells rs) of
             Inl err \<Rightarrow> Some (Some err, rs)
           | Inr c \<Rightarrow> Some (None, rs\<lparr>cells := c\<rparr>)))"

text \<open>
  \<open>runState.run\<close>, with the bound \<open>n\<close> on the number of steps taken, nested calls
  included.  An error of an action is wrapped in \<open>ErrExecute\<close>; a panic is not an
  error value and passes unwrapped.
\<close>

primrec run :: "nat \<Rightarrow> runState \<Rightarrow> ran" where
  "run 0 rs = (case run_pending rs of [] \<Rightarrow> Some (None, rs) | node # rest \<Rightarrow> None)"
| "run (Suc n) rs =
     (case run_pending rs of
        [] \<Rightarrow> Some (None, rs)
      | node # rest \<Rightarrow>
          (let rs1 = rs\<lparr>run_pending := rest\<rparr> in
           case node of
             graphUserNode p r action \<Rightarrow>
               if p < length (store rs1) \<and> r < length (store rs1) then
                 (case exec_action (run n) (action_exec action) rs1 p r of
                    None \<Rightarrow> None
                  | Some (Some err, rs2) \<Rightarrow>
                      if is_panic err then Some (Some err, rs2)
                      else
                        Some (Some (ErrExecute
                                      (case action_format action of None \<Rightarrow> [] | Some s \<Rightarrow> s)
                                      err), rs2)
                  | Some (None, rs2) \<Rightarrow> run n rs2)
               else Some (Some (Panic ''nil pointer dereference''), rs1)
           | _ \<Rightarrow>
               (case execute node (store rs1) of
                  Inl err \<Rightarrow> Some (Some err, rs1)
                | Inr st \<Rightarrow> run n (rs1\<lparr>store := st\<rparr>))))"

text \<open>The options of \<open>Run\<close>, and the record they fill.\<close>

datatype run_option =
    Provide "val list \<Rightarrow> string list \<times> (error + val list)" "Spec list" "Spec list"
            "string option"
  | Supply "val list" "Spec list" "string option"
  | Stack "val list \<Rightarrow> string list \<times> (error + val list)"
          "val list \<Rightarrow> error option \<Rightarrow> string list \<times> error option"
          "Spec list" "Spec list" "string option"
  | Invoke "val list \<Rightarrow> string list \<times> error option" "Spec list" "string option"
  | Populate "nat list" "Spec list" "string option"
  | Module "run_option list"




section \<open>Auxiliary notions for the statements\<close>

text \<open>The elements of a slice value, and the value a collect descriptor points to.\<close>

fun elems :: "val \<Rightarrow> val list" where
  "elems (Slice xs) = xs"
| "elems v = []"

definition slot_val :: "val list list \<Rightarrow> executionCollect \<Rightarrow> val" where
  "slot_val st c = st ! the (cresult c) ! cindex c"

text \<open>
  A source of a collect-group step is readable when it points into a buffer other than
  the aggregation buffer \<open>r\<close> and the slot it points to holds a slice.
\<close>

definition reads_slice :: "val list list \<Rightarrow> nat \<Rightarrow> executionCollect \<Rightarrow> bool" where
  "reads_slice st r c =
     (case cresult c of
        None \<Rightarrow> False
      | Some b \<Rightarrow> b < length st \<and> b \<noteq> r \<and> cindex c < length (st ! b) \<and>
          (case st ! b ! cindex c of Slice ys \<Rightarrow> True | _ \<Rightarrow> False))"

text \<open>
  A graph whose only node consumes the group it provides, and a consumer of that group.
\<close>

definition group_spec :: Spec where
  "group_spec = \<lparr>Type = 1, Name = [], Group = True, Decorate = False\<rparr>"

definition group_cycle_node :: "unit graphNode" where
  "group_cycle_node =
     \<lparr>node_input = [group_spec], node_output = [group_spec], node_value = (),
      node_format = None\<rparr>"

definition group_consumer :: "unit graphNode" where
  "group_consumer =
     \<lparr>node_input = [group_spec], node_output = [], node_value = (), node_format = None\<rparr>"

definition group_cycle_graph :: "unit graph" where
  "group_cycle_graph = insert_node newGraph group_cycle_node"

text \<open>Two providers of one port, and a consumer of that port, with nothing else around.\<close>

definition provider_of :: "Spec \<Rightarrow> 'a \<Rightarrow> 'a graphNode" where
  "provider_of s v = \<lparr>node_input = [], node_output = [s], node_value = v, node_format = None\<rparr>"

definition consumer_of :: "Spec list \<Rightarrow> 'a \<Rightarrow> 'a graphNode" where
  "consumer_of ss v = \<lparr>node_input = ss, node_output = [], node_value = v, node_format = None\<rparr>"

text \<open>
  What a call that returns a result may change in the planner state: entries are added
  to \<open>outputs\<close>, \<open>grouped\<close> and \<open>decorated\<close>, and \<open>pending\<close> loses elements at most.
\<close>

definition ext :: "'a graphToposort \<Rightarrow> 'a graphToposort \<Rightarrow> bool" where
  "ext tp tp' \<longleftrightarrow>
     dom (outputs tp) \<subseteq> dom (outputs tp') \<and> dom (grouped tp) \<subseteq> dom (grouped tp') \<and>
     dom (decorated tp) \<subseteq> dom (decorated tp') \<and> pending tp' \<subseteq> pending tp"


text \<open>
  A key is resolved in a planner state when its base collect is at hand: the buffer of
  the group is recorded, or the only provider of the key is scheduled and not pending.
\<close>

definition resolved :: "'a graph \<Rightarrow> 'a graphToposort \<Rightarrow> graphNodeKey \<Rightarrow> bool" where
  "resolved g tp key \<longleftrightarrow>
     (if group key then key \<in> dom (grouped tp)
      else length (provide g key) = 1 \<and> slot_id (provide g key ! 0) \<notin> pending tp \<and>
           slot_id (provide g key ! 0) \<in> dom (outputs tp))"

subsection \<open>The planner with every error propagated\<close>







subsection \<open>Dependencies between nodes, and the invariant of the planner\<close>

text \<open>
  The nodes that resolving an input schedules when it succeeds: the providers of its
  key, and the decorators of the key unless the input itself asks for the value under
  decoration.
\<close>

definition spec_needs :: "'a graph \<Rightarrow> Spec \<Rightarrow> nat set" where
  "spec_needs g s =
     slot_id ` set (provide g (extractGraphKey s)) \<union>
     (if Decorate s then {} else slot_id ` set (decorate g (extractGraphKey s)))"

definition node_needs :: "'a graph \<Rightarrow> 'a graphNode \<Rightarrow> nat set" where
  "node_needs g node = (\<Union>s \<in> set (node_input node). spec_needs g s)"

definition needs_rel :: "'a graph \<Rightarrow> (nat \<times> nat) set" where
  "needs_rel g = {(i, j). i < length (nodes g) \<and> j \<in> node_needs g (nodes g ! i)}"

text \<open>The nodes from which a dependency cycle can be reached.\<close>

definition reaches_cycle :: "'a graph \<Rightarrow> nat set" where
  "reaches_cycle g = {i. \<exists>j. (i, j) \<in> (needs_rel g)\<^sup>* \<and> (j, j) \<in> (needs_rel g)\<^sup>+}"

text \<open>The values of the user-action steps of a plan, in order.\<close>

fun user_values :: "'a executionNode list \<Rightarrow> 'a list" where
  "user_values [] = []"
| "user_values (graphUserNode p r v # rest) = v # user_values rest"
| "user_values (collectParamNode items r # rest) = user_values rest"
| "user_values (collectGroupNode items r # rest) = user_values rest"

text \<open>
  The invariant of the planner state: a recorded group has all its providers scheduled,
  a recorded decoration all its decorators, a scheduled node is a node of the graph and
  has everything it needs scheduled, and no scheduled node reaches a cycle.
\<close>

definition Inv :: "'a graph \<Rightarrow> 'a graphToposort \<Rightarrow> bool" where
  "Inv g tp \<longleftrightarrow>
     (\<forall>k \<in> dom (grouped tp). slot_id ` set (provide g k) \<subseteq> dom (outputs tp)) \<and>
     (\<forall>k \<in> dom (decorated tp). slot_id ` set (decorate g k) \<subseteq> dom (outputs tp)) \<and>
     (\<forall>i \<in> dom (outputs tp). i < length (nodes g) \<and>
          node_needs g (nodes g ! i) \<subseteq> dom (outputs tp)) \<and>
     dom (outputs tp) \<inter> reaches_cycle g = {}"

text \<open>
  A successful call, from \<open>tp\<close> to \<open>tp'\<close>: the invariant holds afterwards, the nodes
  newly scheduled are reachable from the seeds \<open>F\<close>, and the steps appended to the
  plan hold one user-action step for every node newly scheduled, besides those of \<open>M\<close>.
\<close>

definition step ::
  "'a graph \<Rightarrow> nat set \<Rightarrow> 'a multiset \<Rightarrow> 'a graphToposort \<Rightarrow> 'a graphToposort \<Rightarrow> bool" where
  "step g F M tp tp' \<longleftrightarrow>
     Inv g tp' \<and> ext tp tp' \<and>
     dom (outputs tp') \<subseteq> dom (outputs tp) \<union> (needs_rel g)\<^sup>* `` F \<and>
     (\<exists>new. result tp' = result tp @ new \<and>
        mset (user_values new) =
          image_mset (\<lambda>i. node_value (nodes g ! i))
            (mset_set (dom (outputs tp') - dom (outputs tp))) + M)"



subsection \<open>Example graphs\<close>

definition single_spec :: "nat \<Rightarrow> Spec" where
  "single_spec t = \<lparr>Type = t, Name = [], Group = False, Decorate = False\<rparr>"



definition plain_node :: "Spec list \<Rightarrow> Spec list \<Rightarrow> 'a \<Rightarrow> 'a graphNode" where
  "plain_node ins outs v =
     \<lparr>node_input = ins, node_output = outs, node_value = v, node_format = None\<rparr>"

text \<open>
  Scenario 4 of the specification: \<open>P1(B) \<rightarrow> A\<close>, \<open>P2(A) \<rightarrow> B\<close>, and a consumer of
  \<open>A\<close>.  The types \<open>A\<close> and \<open>B\<close> are 1 and 2.
\<close>

definition cycle_graph :: "nat graph" where
  "cycle_graph =
     insert_node (insert_node newGraph
       (plain_node [single_spec 2] [single_spec 1] 0))
       (plain_node [single_spec 1] [single_spec 2] 1)"

definition cycle_consumer :: "nat graphNode" where
  "cycle_consumer = plain_node [single_spec 1] [] 2"





subsection \<open>The errors of planning and of running\<close>








subsection \<open>The runner as the specification words it\<close>

text \<open>
  A stack function propagates the failure of its continuation when its part after the
  call returns an error whenever the continuation did.
\<close>

fun propagates :: "runAction executionNode \<Rightarrow> bool" where
  "propagates (graphUserNode p r a) =
     (case action_exec a of
        StackExec enter leave \<Rightarrow> (\<forall>ins e. snd (leave ins (Some e)) \<noteq> None)
      | _ \<Rightarrow> True)"
| "propagates (collectParamNode items r) = True"
| "propagates (collectGroupNode items r) = True"

fun is_stack :: "exec \<Rightarrow> bool" where
  "is_stack (StackExec enter leave) = True"
| "is_stack a = False"

text \<open>
  The specification of the runner, by recursion on the queue of steps and with no
  bound: a step is taken from the front; the continuation of a stack step copies the
  values and drains all the steps behind it, and only then the stack function goes on,
  so that the part of a stack function after the call runs when everything planned
  behind it has run, the parts after the call of the later stack functions included.
\<close>

primrec unwind :: "runAction executionNode list \<Rightarrow> runState \<Rightarrow> error option \<times> runState" where
  "unwind [] = (\<lambda>rs. (None, rs))"
| "unwind (node # rest) = (\<lambda>rs.
     (let rs1 = rs\<lparr>run_pending := rest\<rparr> in
      case node of
        graphUserNode p r action \<Rightarrow>
          if p < length (store rs1) \<and> r < length (store rs1) then
            (case exec_action (\<lambda>s. Some (unwind rest s)) (action_exec action) rs1 p r of
               None \<Rightarrow> (Some (Panic ''unreachable''), rs1)
             | Some (Some err, rs2) \<Rightarrow>
                 if is_panic err then (Some err, rs2)
                 else
                   (Some (ErrExecute
                            (case action_format action of None \<Rightarrow> [] | Some s \<Rightarrow> s) err),
                    rs2)
             | Some (None, rs2) \<Rightarrow>
                 if is_stack (action_exec action) then (None, rs2) else unwind rest rs2)
          else (Some (Panic ''nil pointer dereference''), rs1)
      | _ \<Rightarrow>
          (case execute node (store rs1) of
             Inl err \<Rightarrow> (Some err, rs1)
           | Inr st \<Rightarrow> unwind rest (rs1\<lparr>store := st\<rparr>))))"


text \<open>
  Two stack providers, the second consuming what the first provides, and a consumer of
  what the second provides.  Each function logs its name on entry, and each stack
  function logs it again when its continuation has returned.
\<close>

definition nested_stacks :: "run_option list" where
  "nested_stacks =
     [Stack (\<lambda>_. ([''enter 1''], Inr [Obj 1])) (\<lambda>_ res. ([''leave 1''], res))
        [] [single_spec 1] None,
      Stack (\<lambda>_. ([''enter 2''], Inr [Obj 2])) (\<lambda>_ res. ([''leave 2''], res))
        [single_spec 1] [single_spec 2] None,
      Invoke (\<lambda>_. ([''invoke''], None)) [single_spec 2] None]"

text \<open>
  The state of the runner for \<open>nested_stacks\<close> when the first stack step is at the
  front of the queue, as planning and the first collect-param step leave it.
\<close>

definition stack_action :: "string \<Rightarrow> val \<Rightarrow> runAction" where
  "stack_action nm v =
     \<lparr>action_format = None,
      action_exec = StackExec (\<lambda>_. ([''enter '' @ nm], Inr [v])) (\<lambda>_ res. ([''leave '' @ nm], res))\<rparr>"

definition nested_rest :: "runAction executionNode list" where
  "nested_rest =
     [collectParamNode [\<lparr>cresult = Some 3, cindex = 0\<rparr>] 1,
      graphUserNode 1 4 (stack_action ''2'' (Obj 2)),
      collectParamNode [\<lparr>cresult = Some 4, cindex = 0\<rparr>] 0,
      graphUserNode 0 5
        \<lparr>action_format = None, action_exec = InvokeExec (\<lambda>_. ([''invoke''], None))\<rparr>]"

definition nested_state :: runState where
  "nested_state =
     \<lparr>run_pending = graphUserNode 2 3 (stack_action ''1'' (Obj 1)) # nested_rest,
      store = [[Zero], [Zero], [], [Zero], [Zero], []], events = [], cells = (\<lambda>_. Zero)\<rparr>"

section \<open>Unfolding the planner\<close>

lemmas planner_defs = toposortGenerateSingle_def toposortGenerateGrouped_def
  toposortGenerateBaseCollect_def toposortGenerateCollect_def toposortGenerateGraphNode_def
  alloc_def

section \<open>Collect-group steps at run time\<close>

lemma collectGroup_loop_concat:
  "r < length st \<Longrightarrow> st ! r = Slice xs # others \<Longrightarrow> list_all (reads_slice st r) items \<Longrightarrow>
   \<exists>st'. collectGroup_loop st r items = Inr st' \<and>
      st' = st[r := Slice (xs @ concat (map (\<lambda>c. elems (slot_val st c)) items)) # others]"
proof (induction items arbitrary: st xs)
  case Nil
  then show ?case
    by (metis collectGroup_loop.simps(1) append_Nil2 concat.simps(1) list.simps(8)
        list_update_id)
next
  case (Cons c items)
  from Cons.prems(3) obtain b ys where b: "cresult c = Some b" "b < length st" "b \<noteq> r"
    "cindex c < length (st ! b)" "st ! b ! cindex c = Slice ys"
    by (auto simp: reads_slice_def split: option.splits val.splits)
  let ?st = "st[r := (st ! r)[0 := Slice (xs @ ys)]]"
  have step: "collectGroup_loop st r (c # items) = collectGroup_loop ?st r items"
    using Cons.prems(1,2) b by (simp add: collect_def AppendSlice_def)
  have same: "\<And>v. reads_slice (st[r := v]) r = reads_slice st r"
    by (rule ext) (auto simp: reads_slice_def split: option.splits)
  have sv: "\<And>c' v. reads_slice st r c' \<Longrightarrow> slot_val (st[r := v]) c' = slot_val st c'"
    by (auto simp: reads_slice_def slot_val_def split: option.splits)
  have "\<exists>st'. collectGroup_loop ?st r items = Inr st' \<and>
      st' = ?st[r := Slice ((xs @ ys) @ concat (map (\<lambda>c. elems (slot_val ?st c)) items))
                      # others]"
    using Cons.prems by (intro Cons.IH) (simp_all add: same)
  moreover have "map (\<lambda>c. elems (slot_val ?st c)) items = map (\<lambda>c. elems (slot_val st c)) items"
    using Cons.prems(3) sv by (simp add: list_all_iff)
  moreover have "slot_val st c = Slice ys" using b by (simp add: slot_val_def)
  ultimately show ?case using step by simp
qed

text \<open>
  C2, as amended.  A collect-group step treats every source slot as a slice and splices
  its elements onto the aggregation buffer: with the buffer holding \<open>xs\<close> and every
  source pointing to a slice in another buffer, the step leaves \<open>xs\<close> followed by the
  elements of the sources, in the order of the sources, and changes nothing else.
\<close>

theorem collect_group_splices:
  assumes "r < length st" and "st ! r = Slice xs # others"
    and "list_all (reads_slice st r) items"
  shows "execute (collectGroupNode items r) st =
     Inr (st[r := Slice (xs @ concat (map (\<lambda>c. elems (slot_val st c)) items)) # others])"
  using collectGroup_loop_concat[OF assms] by auto

theorem collect_group_splices_witness:
  "execute (collectGroupNode
       [\<lparr>cresult = Some 0, cindex = 0\<rparr>, \<lparr>cresult = Some 0, cindex = 1\<rparr>] 1)
     [[Slice [Obj 1, Obj 2], Slice [Obj 3]], [Slice []]] =
   Inr [[Slice [Obj 1, Obj 2], Slice [Obj 3]], [Slice [Obj 1, Obj 2, Obj 3]]]"
  using collect_group_splices[of 1 "[[Slice [Obj 1, Obj 2], Slice [Obj 3]], [Slice []]]"
     "[]" "[]" "[\<lparr>cresult = Some 0, cindex = 0\<rparr>, \<lparr>cresult = Some 0, cindex = 1\<rparr>]"]
  by (simp add: reads_slice_def slot_val_def)

text \<open>
  C2, as stated, fails.  A source slot holding a slice of two elements adds two elements
  to the aggregation buffer, not the slot as one element; a source slot that holds no
  slice makes the step panic.
\<close>

theorem collect_group_single_element_counterexample:
  "execute (collectGroupNode [\<lparr>cresult = Some 0, cindex = 0\<rparr>] 1)
       [[Slice [Obj 1, Obj 2]], [Slice []]]
     = Inr [[Slice [Obj 1, Obj 2]], [Slice [Obj 1, Obj 2]]]
   \<and> execute (collectGroupNode [\<lparr>cresult = Some 0, cindex = 0\<rparr>] 1)
       [[Slice [Obj 1, Obj 2]], [Slice []]]
     \<noteq> Inr [[Slice [Obj 1, Obj 2]], [Slice [Slice [Obj 1, Obj 2]]]]
   \<and> execute (collectGroupNode [\<lparr>cresult = Some 0, cindex = 0\<rparr>] 1) [[Obj 1], [Slice []]]
     = Inl (Panic ''reflect: call of reflect.AppendSlice on non-slice'')"
  by (simp add: collect_def AppendSlice_def)

section \<open>A cycle through a group port\<close>

lemma group_cycle_graph_simps:
  "nodes group_cycle_graph = [group_cycle_node]"
  "provide group_cycle_graph (extractGraphKey group_spec) = [\<lparr>slot_id = 0, slot_index = 0\<rparr>]"
  by (simp_all add: group_cycle_graph_def insert_node_def newGraph_def group_cycle_node_def
      group_spec_def extractGraphKey_def)

lemma group_cycle_node_diverges:
  "outputs tp 0 = None \<Longrightarrow> grouped tp (extractGraphKey group_spec) = None \<Longrightarrow>
   toposortGenerateGraphNodeID n group_cycle_graph tp 0 = None"
proof (induction n arbitrary: tp)
  case 0
  then show ?case by simp
next
  case (Suc n)
  have k: "group (extractGraphKey group_spec)"
    by (simp add: extractGraphKey_def group_spec_def)
  have inp: "node_input group_cycle_node = [group_spec]"
    by (simp add: group_cycle_node_def)
  show ?case using Suc.prems k inp
    by (simp add: group_cycle_graph_simps planner_defs Suc.IH)
qed

text \<open>
  C10 fails on the code.  With one node that consumes the group it provides, planning for
  a consumer of the group returns nothing, whatever depth of nested calls is allowed:
  \<open>toposortGenerateGrouped\<close> schedules the provider without consulting \<open>pending\<close>, and
  the provider, not yet recorded in \<open>outputs\<close>, resolves the group again.
\<close>

theorem toposort_group_cycle_diverges:
  "toposort n group_cycle_graph [group_consumer] = None"
proof -
  have k: "group (extractGraphKey group_spec)"
    by (simp add: extractGraphKey_def group_spec_def)
  have inp: "node_input group_consumer = [group_spec]"
    by (simp add: group_consumer_def)
  show ?thesis using k inp
    by (simp add: toposort_def newGraphToposort_def group_cycle_graph_simps planner_defs
        group_cycle_node_diverges)
qed

section \<open>Missing and ambiguous dependencies\<close>

text \<open>
  C6.  Resolving a key that is not a group fails with the missing-dependency error when
  the provide index holds no slot for it and with the ambiguous-dependency error when it
  holds two or more, whatever the scheduler and the planner state.  Inserting two
  providers of one port is no error: \<open>insert_node\<close> returns the graph with both slots
  recorded, and only planning for a consumer of the port fails, when the port is no
  group.  When the port is a group, planning succeeds and the collect-group step has
  both providers as its sources.
\<close>

theorem singleton_resolution_errors:
  "(\<not> group key \<and> provide g key = [] \<longrightarrow>
      toposortGenerateBaseCollect sched g tp key = Some (Inl (MissingDependency key), tp))
   \<and> (\<not> group key \<and> 2 \<le> length (provide g key) \<longrightarrow>
      toposortGenerateBaseCollect sched g tp key = Some (Inl (AmbiguousDependency key), tp))
   \<and> (\<not> Decorate s \<longrightarrow>
      provide (insert_node (insert_node g' (provider_of s va)) (provider_of s vb))
          (extractGraphKey s)
        = provide g' (extractGraphKey s)
          @ [\<lparr>slot_id = length (nodes g'), slot_index = 0\<rparr>,
             \<lparr>slot_id = Suc (length (nodes g')), slot_index = 0\<rparr>])
   \<and> (\<not> Decorate s \<and> \<not> Group s \<longrightarrow>
      toposort n (insert_node (insert_node newGraph (provider_of s va)) (provider_of s vb))
          [consumer_of [s] vc]
        = Some (Inl (AmbiguousDependency (extractGraphKey s))))
   \<and> (\<not> Decorate s \<and> Group s \<longrightarrow>
      toposort (Suc n) (insert_node (insert_node newGraph (provider_of s va)) (provider_of s vb))
          [consumer_of [s] vc]
        = Some (Inr ([collectParamNode [] 2, graphUserNode 2 3 va,
               collectParamNode [] 4, graphUserNode 4 5 vb,
               collectGroupNode [\<lparr>cresult = Some 3, cindex = 0\<rparr>,
                                 \<lparr>cresult = Some 5, cindex = 0\<rparr>] 1,
               collectParamNode [\<lparr>cresult = Some 1, cindex = 0\<rparr>] 0,
               graphUserNode 0 6 vc],
              [[Zero], [Slice []], [], [Zero], [], [Zero], []])))"
proof (intro conjI impI)
  show "toposortGenerateBaseCollect sched g tp key = Some (Inl (MissingDependency key), tp)"
    if "\<not> group key \<and> provide g key = []"
    using that by (simp add: toposortGenerateBaseCollect_def toposortGenerateSingle_def)
  show "toposortGenerateBaseCollect sched g tp key = Some (Inl (AmbiguousDependency key), tp)"
    if "\<not> group key \<and> 2 \<le> length (provide g key)"
    using that by (auto simp: toposortGenerateBaseCollect_def toposortGenerateSingle_def Let_def)
  show "provide (insert_node (insert_node g' (provider_of s va)) (provider_of s vb))
          (extractGraphKey s)
        = provide g' (extractGraphKey s)
          @ [\<lparr>slot_id = length (nodes g'), slot_index = 0\<rparr>,
             \<lparr>slot_id = Suc (length (nodes g')), slot_index = 0\<rparr>]"
    if "\<not> Decorate s"
    using that by (simp add: insert_node_def provider_of_def Let_def)
  show "toposort n (insert_node (insert_node newGraph (provider_of s va)) (provider_of s vb))
          [consumer_of [s] vc]
        = Some (Inl (AmbiguousDependency (extractGraphKey s)))"
    if "\<not> Decorate s \<and> \<not> Group s"
    using that
    by (simp add: toposort_def newGraphToposort_def newGraph_def insert_node_def Let_def
        planner_defs extractGraphKey_def provider_of_def consumer_of_def)
  show "toposort (Suc n) (insert_node (insert_node newGraph (provider_of s va)) (provider_of s vb))
          [consumer_of [s] vc]
        = Some (Inr ([collectParamNode [] 2, graphUserNode 2 3 va,
               collectParamNode [] 4, graphUserNode 4 5 vb,
               collectGroupNode [\<lparr>cresult = Some 3, cindex = 0\<rparr>,
                                 \<lparr>cresult = Some 5, cindex = 0\<rparr>] 1,
               collectParamNode [\<lparr>cresult = Some 1, cindex = 0\<rparr>] 0,
               graphUserNode 0 6 vc],
              [[Zero], [Slice []], [], [Zero], [], [Zero], []]))"
    if "\<not> Decorate s \<and> Group s"
    using that
    by (simp add: toposort_def newGraphToposort_def newGraph_def insert_node_def Let_def
        planner_defs extractGraphKey_def provider_of_def consumer_of_def)
qed

theorem singleton_resolution_errors_witness:
  "toposortGenerateBaseCollect (toposortGenerateGraphNodeID 0 (newGraph :: unit graph)) newGraph
      newGraphToposort \<lparr>key_typ = 1, name = [], group = False\<rparr>
     = Some (Inl (MissingDependency \<lparr>key_typ = 1, name = [], group = False\<rparr>), newGraphToposort)
   \<and> toposortGenerateBaseCollect (toposortGenerateGraphNodeID 0
         (insert_node (insert_node newGraph
            (provider_of \<lparr>Type = 1, Name = [], Group = False, Decorate = False\<rparr> ()))
            (provider_of \<lparr>Type = 1, Name = [], Group = False, Decorate = False\<rparr> ())))
         (insert_node (insert_node newGraph
            (provider_of \<lparr>Type = 1, Name = [], Group = False, Decorate = False\<rparr> ()))
            (provider_of \<lparr>Type = 1, Name = [], Group = False, Decorate = False\<rparr> ()))
         newGraphToposort \<lparr>key_typ = 1, name = [], group = False\<rparr>
     = Some (Inl (AmbiguousDependency \<lparr>key_typ = 1, name = [], group = False\<rparr>),
             newGraphToposort)
   \<and> toposort 0 (insert_node (insert_node newGraph
            (provider_of \<lparr>Type = 1, Name = [], Group = False, Decorate = False\<rparr> ()))
            (provider_of \<lparr>Type = 1, Name = [], Group = False, Decorate = False\<rparr> ()))
         [consumer_of [\<lparr>Type = 1, Name = [], Group = False, Decorate = False\<rparr>] ()]
     = Some (Inl (AmbiguousDependency \<lparr>key_typ = 1, name = [], group = False\<rparr>))
   \<and> (\<exists>plan hp. toposort 1 (insert_node (insert_node newGraph
            (provider_of \<lparr>Type = 1, Name = [], Group = True, Decorate = False\<rparr> ()))
            (provider_of \<lparr>Type = 1, Name = [], Group = True, Decorate = False\<rparr> ()))
         [consumer_of [\<lparr>Type = 1, Name = [], Group = True, Decorate = False\<rparr>] ()]
     = Some (Inr (plan, hp)))"
proof -
  let ?s = "\<lparr>Type = 1, Name = [], Group = False, Decorate = False\<rparr>"
  let ?t = "\<lparr>Type = 1, Name = [], Group = True, Decorate = False\<rparr>"
  let ?k = "\<lparr>key_typ = 1, name = [], group = False\<rparr>"
  let ?g2 = "insert_node (insert_node (newGraph :: unit graph) (provider_of ?s ())) (provider_of ?s ())"
  have p2: "provide ?g2 ?k = [\<lparr>slot_id = 0, slot_index = 0\<rparr>, \<lparr>slot_id = 1, slot_index = 0\<rparr>]"
    by (simp add: insert_node_def provider_of_def newGraph_def extractGraphKey_def)
  note a = singleton_resolution_errors[where key = ?k and g = "newGraph :: unit graph"
      and sched = "toposortGenerateGraphNodeID 0 (newGraph :: unit graph)"
      and tp = newGraphToposort and s = ?s and g' = "newGraph :: unit graph"
      and va = "()" and vb = "()" and vc = "()" and n = 0]
  note b = singleton_resolution_errors[where key = ?k and g = ?g2
      and sched = "toposortGenerateGraphNodeID 0 ?g2"
      and tp = newGraphToposort and s = ?t and g' = "newGraph :: unit graph"
      and va = "()" and vb = "()" and vc = "()" and n = 0]
  show ?thesis using a b p2 by (simp add: newGraph_def extractGraphKey_def)
qed


section \<open>What a successful planner call changes\<close>

lemma ext_iff:
  "ext tp tp' \<longleftrightarrow>
     (\<forall>i. outputs tp i \<noteq> None \<longrightarrow> outputs tp' i \<noteq> None) \<and>
     (\<forall>k. grouped tp k \<noteq> None \<longrightarrow> grouped tp' k \<noteq> None) \<and>
     (\<forall>k. decorated tp k \<noteq> None \<longrightarrow> decorated tp' k \<noteq> None) \<and>
     (\<forall>i. i \<in> pending tp' \<longrightarrow> i \<in> pending tp)"
  unfolding ext_def by (simp add: subset_iff dom_def) 

lemma ext_refl [simp]: "ext tp tp"
  by (simp add: ext_iff)














lemma resolved_decorating [simp]:
  "resolved g (tp\<lparr>decorating := d\<rparr>) key = resolved g tp key"
  by (simp add: resolved_def)










section \<open>Planning errors abort planning\<close>









section \<open>The invariant of the planner state\<close>


lemma user_values_append [simp]: "user_values (xs @ ys) = user_values xs @ user_values ys"
  by (induction xs rule: user_values.induct) simp_all


lemma Inv_upd [simp]:
  "Inv g (tp\<lparr>heap := h\<rparr>) = Inv g tp"
  "Inv g (tp\<lparr>result := r\<rparr>) = Inv g tp"
  "Inv g (tp\<lparr>decorating := d\<rparr>) = Inv g tp"
  "Inv g (tp\<lparr>pending := pe\<rparr>) = Inv g tp"
  by (simp_all add: Inv_def)





lemma step_upd_right [simp]:
  "step g F M tp (tp'\<lparr>heap := h\<rparr>) = step g F M tp tp'"
  "step g F M tp (tp'\<lparr>decorating := d\<rparr>) = step g F M tp tp'"
  by (simp_all add: step_def ext_iff)

lemma step_upd_left [simp]:
  "step g F M (tp\<lparr>heap := h\<rparr>) tp' = step g F M tp tp'"
  "step g F M (tp\<lparr>decorating := d\<rparr>) tp' = step g F M tp tp'"
  by (simp_all add: step_def ext_iff)





















lemma needs_rel_node:
  "i < length (nodes g) \<Longrightarrow> needs_rel g `` {i} = node_needs g (nodes g ! i)"
  by (auto simp: needs_rel_def)








section \<open>Evaluating the planner on the example graphs\<close>



lemma plan_cycle: "toposort 3 cycle_graph [cycle_consumer]
     = Some (Inl (CyclicDependency ''#0'' \<lparr>key_typ = 1, name = [], group = False\<rparr>))"
  by code_simp





section \<open>Every node is scheduled at most once\<close>




section \<open>Dependency cycles\<close>










section \<open>The errors of planning and of running\<close>






















lemma nodes_insert_outputs [simp]: "nodes (insert_outputs g n i outs) = nodes g"
  by (induction outs arbitrary: g i) (simp_all add: Let_def)

lemma nodes_insert_node [simp]: "nodes (insert_node g nd) = nodes g @ [nd]"
  by (simp add: insert_node_def)









section \<open>Stack providers and their continuations\<close>


lemma run_empty [simp]: "run_pending rs = [] \<Longrightarrow> run n rs = Some (None, rs)"
  by (cases n) simp_all

lemma exec_action_plain_pending:
  "\<not> is_stack a \<Longrightarrow> exec_action k a rs p r = Some (res, rs') \<Longrightarrow>
   run_pending rs' = run_pending rs"
  by (cases a) (auto simp: exec_action_def split: prod.splits sum.splits)

lemma exec_action_plain_k:
  "\<not> is_stack a \<Longrightarrow> exec_action k a rs p r = exec_action k' a rs p r"
  by (cases a) (auto simp: exec_action_def split: prod.splits sum.splits)

lemma exec_action_stack_k:
  assumes "\<And>evs out. k (rs\<lparr>events := events rs @ evs,
                store := (store rs)[r := copy_vals (store rs ! r) out]\<rparr>)
           = k' (rs\<lparr>events := events rs @ evs,
                store := (store rs)[r := copy_vals (store rs ! r) out]\<rparr>)"
  shows "exec_action k a rs p r = exec_action k' a rs p r"
  using assms by (cases a) (auto simp: exec_action_def split: prod.splits sum.splits)


lemma exec_action_total: "exec_action (\<lambda>s. Some (f s)) a rs p r \<noteq> None"
  by (cases a) (auto simp: exec_action_def split: prod.splits sum.splits)

lemma exec_action_stack_drained:
  assumes "is_stack a" "propagates (graphUserNode p r \<lparr>action_format = fm, action_exec = a\<rparr>)"
    and "\<And>s res s'. run_pending s = run_pending rs \<Longrightarrow> f s = (None, s') \<Longrightarrow> run_pending s' = []"
    and "exec_action (\<lambda>s. Some (f s)) a rs p r = Some (None, rs')"
  shows "run_pending rs' = []"
proof -
  from assms(1) obtain enter leave where a: "a = StackExec enter leave" by (cases a) auto
  obtain evs x where en: "enter (store rs ! p) = (evs, x)" by (cases "enter (store rs ! p)")
  show ?thesis
  proof (cases x)
    case (Inl err)
    with assms(4) a en show ?thesis by (simp add: exec_action_def)
  next
    case (Inr out)
    let ?rs1 = "rs\<lparr>events := events rs @ evs,
                    store := (store rs)[r := copy_vals (store rs ! r) out]\<rparr>"
    obtain res2 rs2 where f: "f ?rs1 = (res2, rs2)" by (cases "f ?rs1")
    obtain evs' final where l: "leave (store rs ! p) res2 = (evs', final)"
      by (cases "leave (store rs ! p) res2")
    from assms(4) a en Inr f l have np: "\<not> panicked res2" and fin: "final = None"
      and rs': "run_pending rs' = run_pending rs2"
      by (auto simp: exec_action_def split: if_splits)
    have "res2 = None"
    proof (rule ccontr)
      assume "res2 \<noteq> None"
      then obtain e where e: "res2 = Some e" by blast
      from assms(2) a have "snd (leave (store rs ! p) (Some e)) \<noteq> None" by simp
      with l fin e show False by simp
    qed
    with assms(3)[of ?rs1 rs2] f rs' show ?thesis by simp
  qed
qed

lemma unwind_drained:
  "list_all propagates plan \<Longrightarrow> run_pending rs = plan \<Longrightarrow> unwind plan rs = (None, rs') \<Longrightarrow>
   run_pending rs' = []"
proof (induction plan arbitrary: rs rs')
  case Nil
  then show ?case by simp
next
  case (Cons node rest)
  let ?rs1 = "rs\<lparr>run_pending := rest\<rparr>"
  have pr0: "list_all propagates rest" using Cons.prems(1) by simp
  have ih: "run_pending s' = []" if "run_pending s = rest" "unwind rest s = (None, s')" for s s'
    using pr0 that by (rule Cons.IH)
  have d: "run_pending s' = []"
    if "run_pending s = run_pending ?rs1" "unwind rest s = (None, s')" for s s'
    using that by (intro ih[of s s']) simp_all
  show ?case
  proof (cases node)
    case (graphUserNode p r action)
    let ?x = "exec_action (\<lambda>s. Some (unwind rest s)) (action_exec action) ?rs1 p r"
    have b: "p < length (store ?rs1) \<and> r < length (store ?rs1)"
    proof (rule ccontr)
      assume "\<not> ?thesis"
      with Cons.prems(3) graphUserNode show False by (auto simp: Let_def)
    qed
    obtain res2 rs2 where x: "?x = Some (res2, rs2)"
      using exec_action_total[of "unwind rest" "action_exec action" ?rs1 p r] by (cases ?x) auto
    have r2: "res2 = None"
    proof (cases res2)
      case (Some err)
      with Cons.prems(3) graphUserNode b x show ?thesis
        by (simp add: Let_def split: if_splits)
    qed simp
    have u: "(if is_stack (action_exec action) then (None, rs2) else unwind rest rs2) = (None, rs')"
      using Cons.prems(3) graphUserNode b x r2 by (simp add: Let_def)
    note x = x[unfolded r2]
    show ?thesis
    proof (cases "is_stack (action_exec action)")
      case True
      have pp: "propagates (graphUserNode p r
               \<lparr>action_format = action_format action, action_exec = action_exec action\<rparr>)"
        using Cons.prems(1) graphUserNode by simp
      have "run_pending rs2 = []"
        using True pp d x by (rule exec_action_stack_drained)
      with u True show ?thesis by simp
    next
      case False
      from exec_action_plain_pending[OF False x] have "run_pending rs2 = rest" by simp
      moreover from u False have "unwind rest rs2 = (None, rs')" by simp
      ultimately show ?thesis by (rule ih)
    qed
  next
    case (collectParamNode items r)
    with Cons.prems(3) obtain st where
      "unwind rest (?rs1\<lparr>store := st\<rparr>) = (None, rs')"
      by (auto simp: Let_def split: sum.splits)
    with ih[of "?rs1\<lparr>store := st\<rparr>" rs'] show ?thesis by simp
  next
    case (collectGroupNode items r)
    with Cons.prems(3) obtain st where
      "unwind rest (?rs1\<lparr>store := st\<rparr>) = (None, rs')"
      by (auto simp: Let_def split: sum.splits)
    with ih[of "?rs1\<lparr>store := st\<rparr>" rs'] show ?thesis by simp
  qed
qed

lemma run_unwind:
  "list_all propagates plan \<Longrightarrow> run_pending rs = plan \<Longrightarrow> length plan < n \<Longrightarrow>
   run n rs = Some (unwind plan rs)"
proof (induction plan arbitrary: rs n)
  case Nil
  then show ?case by simp
next
  case (Cons node rest)
  from Cons.prems(3) obtain m where n: "n = Suc m" and m: "length rest < m"
    by (cases n) auto
  let ?rs1 = "rs\<lparr>run_pending := rest\<rparr>"
  have pr: "list_all propagates rest" using Cons.prems(1) by simp
  have ih: "run m s = Some (unwind rest s)" if "run_pending s = rest" for s
    using pr that m by (rule Cons.IH)
  show ?case
  proof (cases node)
    case (graphUserNode p r action)
    let ?a = "action_exec action"
    have eq: "exec_action (run m) ?a ?rs1 p r = exec_action (\<lambda>s. Some (unwind rest s)) ?a ?rs1 p r"
      by (rule exec_action_stack_k) (simp add: ih)
    show ?thesis
    proof (cases "p < length (store ?rs1) \<and> r < length (store ?rs1)")
      case False
      with Cons.prems(2) graphUserNode n show ?thesis by auto
    next
      case True
      obtain res2 rs2 where x: "exec_action (\<lambda>s. Some (unwind rest s)) ?a ?rs1 p r = Some (res2, rs2)"
        using exec_action_total[of "unwind rest" ?a ?rs1 p r] by (cases "exec_action (\<lambda>s. Some (unwind rest s)) ?a ?rs1 p r") auto
      show ?thesis
      proof (cases res2)
        case (Some err)
        with Cons.prems(2) graphUserNode n True eq x show ?thesis
          by (simp add: Let_def)
      next
        case None
        have "run m rs2 = Some (if is_stack ?a then (None, rs2) else unwind rest rs2)"
        proof (cases "is_stack ?a")
          case True
          have pp: "propagates (graphUserNode p r
                   \<lparr>action_format = action_format action, action_exec = action_exec action\<rparr>)"
            using Cons.prems(1) graphUserNode by simp
          have d: "run_pending s' = []"
            if "run_pending s = run_pending ?rs1" "unwind rest s = (None, s')" for s s'
            using that by (intro unwind_drained[OF pr, of s s']) simp_all
          have "run_pending rs2 = []"
            using True pp d x[unfolded None] by (rule exec_action_stack_drained)
          with True show ?thesis by simp
        next
          case False
          from exec_action_plain_pending[OF False x] have "run_pending rs2 = rest" by simp
          from ih[OF this] False show ?thesis by simp
        qed
        with Cons.prems(2) graphUserNode n True eq x None show ?thesis by (simp add: Let_def)
      qed
    qed
  next
    case (collectParamNode items r)
    have "run m (?rs1\<lparr>store := st\<rparr>) = Some (unwind rest (?rs1\<lparr>store := st\<rparr>))" for st
      by (rule ih) simp
    with Cons.prems(2) n collectParamNode show ?thesis
      by (simp add: Let_def split: sum.splits)
  next
    case (collectGroupNode items r)
    have "run m (?rs1\<lparr>store := st\<rparr>) = Some (unwind rest (?rs1\<lparr>store := st\<rparr>))" for st
      by (rule ih) simp
    with Cons.prems(2) n collectGroupNode show ?thesis
      by (simp add: Let_def split: sum.splits)
  qed
qed

lemma exec_action_events:
  assumes "\<And>s res s'. k s = Some (res, s') \<Longrightarrow> \<exists>mid. events s' = events s @ mid"
    and "exec_action k a rs p r = Some (res, rs')"
  shows "\<exists>mid. events rs' = events rs @ mid"
proof (cases a)
  case (StackExec enter leave)
  obtain evs x where en: "enter (store rs ! p) = (evs, x)" by (cases "enter (store rs ! p)")
  show ?thesis
  proof (cases x)
    case (Inl err)
    with assms(2) StackExec en show ?thesis by (auto simp: exec_action_def)
  next
    case (Inr out)
    let ?rs1 = "rs\<lparr>events := events rs @ evs,
                    store := (store rs)[r := copy_vals (store rs ! r) out]\<rparr>"
    from assms(2) StackExec en Inr obtain res2 rs2 where k: "k ?rs1 = Some (res2, rs2)"
      by (auto simp: exec_action_def split: option.splits)
    with assms(2) StackExec en Inr have "\<exists>e. events rs' = events rs2 @ e"
      by (auto simp: exec_action_def split: if_splits prod.splits)
    moreover from assms(1)[OF k] obtain mid where "events rs2 = events rs @ evs @ mid" by auto
    ultimately show ?thesis by auto
  qed
qed (use assms(2) in \<open>auto simp: exec_action_def split: prod.splits sum.splits\<close>)

lemma unwind_events: "\<exists>mid. events (snd (unwind plan rs)) = events rs @ mid"
proof (induction plan arbitrary: rs)
  case Nil
  show ?case by simp
next
  case (Cons node rest)
  let ?rs1 = "rs\<lparr>run_pending := rest\<rparr>"
  have ih: "\<exists>mid. events (snd (unwind rest s)) = events s @ mid" for s by (rule Cons.IH)
  show ?case
  proof (cases node)
    case (graphUserNode p r action)
    let ?x = "exec_action (\<lambda>s. Some (unwind rest s)) (action_exec action) ?rs1 p r"
    show ?thesis
    proof (cases "p < length (store ?rs1) \<and> r < length (store ?rs1)")
      case False
      with graphUserNode show ?thesis by (auto simp: Let_def)
    next
      case True
      obtain res2 rs2 where x: "?x = Some (res2, rs2)"
        using exec_action_total[of "unwind rest" "action_exec action" ?rs1 p r] by (cases ?x) auto
      have "\<exists>mid. events rs2 = events ?rs1 @ mid"
      proof (rule exec_action_events[OF _ x])
        fix s res s' assume "Some (unwind rest s) = Some (res, s')"
        then show "\<exists>mid. events s' = events s @ mid" using ih[of s] by auto
      qed
      then obtain mid where m: "events rs2 = events rs @ mid" by auto
      show ?thesis
      proof (cases res2)
        case (Some err)
        with graphUserNode True x m show ?thesis by (simp add: Let_def)
      next
        case None
        from ih[of rs2] obtain mid2 where "events (snd (unwind rest rs2)) = events rs2 @ mid2"
          by blast
        with graphUserNode True x m None show ?thesis by (simp add: Let_def)
      qed
    qed
  next
    case (collectParamNode items r)
    have "\<exists>mid. events (snd (unwind rest (?rs1\<lparr>store := st\<rparr>))) = events rs @ mid" for st
      using ih[of "?rs1\<lparr>store := st\<rparr>"] by simp
    with collectParamNode show ?thesis by (simp add: Let_def split: sum.splits)
  next
    case (collectGroupNode items r)
    have "\<exists>mid. events (snd (unwind rest (?rs1\<lparr>store := st\<rparr>))) = events rs @ mid" for st
      using ih[of "?rs1\<lparr>store := st\<rparr>"] by simp
    with collectGroupNode show ?thesis by (simp add: Let_def split: sum.splits)
  qed
qed

text \<open>
  C5.  With enough steps allowed, and stack functions that propagate the failure of
  their continuation, \<open>runState.run\<close> returns what the recursion on the queue
  returns: the continuation of a stack step runs every step planned behind it.  When
  the queue is run without error, no step is left.  In particular, when the step at the
  front is a stack step whose function calls its continuation with \<open>out\<close>, the
  continuation runs the rest of the queue on the state in which \<open>out\<close> has been copied
  into the output buffer \<open>r\<close>; when it returns without error the queue is empty, all
  the events of the steps behind (the events of later stack functions after their own
  continuations included) are logged, and only then the events of the part of the
  function after the call are: teardown runs in the reverse order of entry.
\<close>

theorem stack_continuation_drains_queue:
  assumes "list_all propagates (run_pending rs)" and "length (run_pending rs) < n"
  shows "run n rs = Some (unwind (run_pending rs) rs)
    \<and> (fst (unwind (run_pending rs) rs) = None
         \<longrightarrow> run_pending (snd (unwind (run_pending rs) rs)) = [])
    \<and> (run_pending rs = graphUserNode p r a # rest \<and> action_exec a = StackExec enter leave
         \<and> p < length (store rs) \<and> r < length (store rs)
         \<and> enter (store rs ! p) = (evs, Inr out)
         \<and> run (n - 1) (rs\<lparr>run_pending := rest, events := events rs @ evs,
                             store := (store rs)[r := copy_vals (store rs ! r) out]\<rparr>)
             = Some (None, rs2)
         \<and> leave (store rs ! p) None = (evs', None)
         \<longrightarrow> run_pending rs2 = []
             \<and> (\<exists>mid. events rs2 = events rs @ evs @ mid)
             \<and> run n rs = Some (None, rs2\<lparr>events := events rs2 @ evs'\<rparr>))"
proof (intro conjI impI)
  show 1: "run n rs = Some (unwind (run_pending rs) rs)"
    using assms(1) refl assms(2) by (rule run_unwind)
  show "run_pending (snd (unwind (run_pending rs) rs)) = []"
    if "fst (unwind (run_pending rs) rs) = None"
    using unwind_drained[OF assms(1) refl, of "snd (unwind (run_pending rs) rs)"] that
    by (cases "unwind (run_pending rs) rs") simp
next
  assume h: "run_pending rs = graphUserNode p r a # rest \<and> action_exec a = StackExec enter leave
         \<and> p < length (store rs) \<and> r < length (store rs)
         \<and> enter (store rs ! p) = (evs, Inr out)
         \<and> run (n - 1) (rs\<lparr>run_pending := rest, events := events rs @ evs,
                             store := (store rs)[r := copy_vals (store rs ! r) out]\<rparr>)
             = Some (None, rs2)
         \<and> leave (store rs ! p) None = (evs', None)"
  let ?rs1 = "rs\<lparr>run_pending := rest, events := events rs @ evs,
                  store := (store rs)[r := copy_vals (store rs ! r) out]\<rparr>"
  from h assms(2) obtain m where n: "n = Suc m" and m: "length rest < m" by (cases n) auto
  have pr: "list_all propagates rest" using assms(1) h by simp
  have u: "run m ?rs1 = Some (unwind rest ?rs1)"
    using pr _ m by (rule run_unwind) simp
  with h n have ur: "unwind rest ?rs1 = (None, rs2)" by simp
  have d: "run_pending rs2 = []"
    using pr _ ur by (rule unwind_drained) simp
  from unwind_events[of rest ?rs1] ur obtain mid where
    e: "events rs2 = events rs @ evs @ mid" by auto
  have "run n rs = Some (None, rs2\<lparr>events := events rs2 @ evs'\<rparr>)"
    using h n d by (simp add: Let_def exec_action_def)
  with d e show "run_pending rs2 = []" "\<exists>mid. events rs2 = events rs @ evs @ mid"
    "run n rs = Some (None, rs2\<lparr>events := events rs2 @ evs'\<rparr>)" by auto
qed

lemma nested_rest_drained:
  "unwind nested_rest
      \<lparr>run_pending = nested_rest, store = [[Zero], [Zero], [], [Obj 1], [Zero], []],
       events = [''enter 1''], cells = (\<lambda>_. Zero)\<rparr>
    = (None, \<lparr>run_pending = [], store = [[Obj 2], [Obj 1], [], [Obj 1], [Obj 2], []],
              events = [''enter 1'', ''enter 2'', ''invoke'', ''leave 2''],
              cells = (\<lambda>_. Zero)\<rparr>)"
  by (simp add: nested_rest_def stack_action_def exec_action_def collect_def copy_vals_def)

text \<open>
  Two nested stack providers: the second is entered after the first and leaves before
  it.
\<close>

theorem stack_continuation_drains_queue_witness:
  "run 9 nested_state
     = Some (None, \<lparr>run_pending = [], store = [[Obj 2], [Obj 1], [], [Obj 1], [Obj 2], []],
                    events = [''enter 1'', ''enter 2'', ''invoke'', ''leave 2'', ''leave 1''],
                    cells = (\<lambda>_. Zero)\<rparr>)"
proof -
  let ?rs1 = "\<lparr>run_pending = nested_rest, store = [[Zero], [Zero], [], [Obj 1], [Zero], []],
       events = [''enter 1''], cells = (\<lambda>_. Zero)\<rparr>"
  let ?rs2 = "\<lparr>run_pending = [], store = [[Obj 2], [Obj 1], [], [Obj 1], [Obj 2], []],
              events = [''enter 1'', ''enter 2'', ''invoke'', ''leave 2''],
              cells = (\<lambda>_. Zero)\<rparr>"
  have p: "list_all propagates (run_pending nested_state)"
    by (simp add: nested_state_def nested_rest_def stack_action_def)
  have l: "length (run_pending nested_state) < 9"
    by (simp add: nested_state_def nested_rest_def)
  have "run 8 ?rs1 = Some (unwind (run_pending ?rs1) ?rs1)"
    by (rule run_unwind) (simp_all add: nested_rest_def stack_action_def)
  then have r: "run (9 - 1) ?rs1 = Some (None, ?rs2)"
    using nested_rest_drained by simp
  have h: "run_pending nested_state = graphUserNode 2 3 (stack_action ''1'' (Obj 1)) # nested_rest
      \<and> action_exec (stack_action ''1'' (Obj 1))
          = StackExec (\<lambda>_. ([''enter 1''], Inr [Obj 1])) (\<lambda>_ res. ([''leave 1''], res))
      \<and> 2 < length (store nested_state) \<and> 3 < length (store nested_state)
      \<and> (\<lambda>_. ([''enter 1''], Inr [Obj 1])) (store nested_state ! 2) = ([''enter 1''], Inr [Obj 1])
      \<and> run (9 - 1) (nested_state\<lparr>run_pending := nested_rest,
              events := events nested_state @ [''enter 1''],
              store := (store nested_state)[3 := copy_vals (store nested_state ! 3) [Obj 1]]\<rparr>)
          = Some (None, ?rs2)
      \<and> (\<lambda>_ res. ([''leave 1''], res)) (store nested_state ! 2) None = ([''leave 1''], None)"
    using r by (simp add: nested_state_def stack_action_def copy_vals_def)
  from stack_continuation_drains_queue[OF p l, of 2 3 "stack_action ''1'' (Obj 1)" nested_rest
      "\<lambda>_. ([''enter 1''], Inr [Obj 1])" "\<lambda>_ res. ([''leave 1''], res)" "[''enter 1'']" "[Obj 1]"
      ?rs2 "[''leave 1'']", THEN conjunct2, THEN conjunct2, THEN mp, OF h]
  have "run 9 nested_state = Some (None, ?rs2\<lparr>events := events ?rs2 @ [''leave 1'']\<rparr>)"
    by (elim conjE)
  then show ?thesis by simp
qed


end
